theory Spec2Isabelle
  imports Main "HOL-Library.Char_ord"
begin

section \<open>Owner signup form: data model\<close>

text \<open>
  The form data of \<^verbatim>\<open>OwnerSignupCard.tsx\<close>. The optional field
  \<^verbatim>\<open>middleName?: string\<close> is a \<open>string option\<close>, \<open>None\<close> standing for
  \<^verbatim>\<open>undefined\<close>.
\<close>

record EstablishmentData =
  name :: string
  dtiCertNo :: string

record SignupFormData =
  firstName :: string
  middleName :: "string option"
  lastName :: string
  email :: string
  password :: string
  confirmPassword :: string
  establishments :: "EstablishmentData list"

section \<open>The remote collaborators\<close>

text \<open>
  The argument of \<^verbatim>\<open>supabase.auth.signUp\<close>: \<open>middle_name = None\<close> is the
  JavaScript \<^verbatim>\<open>null\<close>.
\<close>

record profile_data =
  first_name :: string
  middle_name :: "string option"
  last_name :: string
  role :: string

record signUp_request =
  req_email :: string
  req_password :: string
  req_data :: profile_data

text \<open>The object handed to \<^verbatim>\<open>supabase.from('establishments').insert\<close>.\<close>

record establishment_row =
  owner_id :: string
  row_name :: string
  dti_cert_no :: string
  status :: string

text \<open>The argument of \<^verbatim>\<open>toast\<close>; \<open>variant = None\<close> is the default severity.\<close>

datatype toast_variant = destructive

record toast_args =
  title :: string
  description :: string
  variant :: "toast_variant option"
  duration :: nat

text \<open>
  A value travelling through \<^verbatim>\<open>throw\<close> and \<^verbatim>\<open>catch (error: any)\<close>:
  \<open>Nullish\<close> is \<^verbatim>\<open>null\<close> or \<^verbatim>\<open>undefined\<close>, on which reading
  \<^verbatim>\<open>.message\<close> raises a TypeError; \<open>Exn m\<close> is any other value, \<open>m\<close> being its
  \<^verbatim>\<open>message\<close> property (\<open>None\<close> when it has none).
\<close>

datatype js_exn = Nullish | Exn "string option"

text \<open>
  The error raised by reading a property of a nullish value. The wording of its message
  is the engine's; no property below depends on it.
\<close>

definition TypeError :: js_exn where
  "TypeError = Exn (Some ''Cannot read properties of null'')"

text \<open>The error objects of the remote service (\<^verbatim>\<open>AuthError\<close>, \<^verbatim>\<open>PostgrestError\<close>).\<close>

datatype remote_error = RemoteError (message: string)

datatype user = User (user_id: string)

text \<open>
  What awaiting a remote call yields: the promise rejects with a value, or it resolves
  with the service's response object. \<^verbatim>\<open>signUp\<close> resolves with
  \<^verbatim>\<open>{ data: { user }, error }\<close>, \<^verbatim>\<open>insert\<close> with \<^verbatim>\<open>{ error }\<close>; a \<^verbatim>\<open>null\<close>
  field is \<open>None\<close>.
\<close>

datatype signUp_outcome =
  SignUpThrew js_exn
| SignUpResolved "user option" "remote_error option"

datatype insert_outcome =
  InsertThrew js_exn
| InsertResolved "remote_error option"

text \<open>
  The remote service is opaque: it is a parameter of the workflow. \<open>signUp\<close> answers the
  account-creation request; \<open>insert k row\<close> answers the \<open>k\<close>-th insertion request of the
  run (counted from 0), which carries \<open>row\<close>.
\<close>

record remote =
  signUp :: "signUp_request \<Rightarrow> signUp_outcome"
  insert :: "nat \<Rightarrow> establishment_row \<Rightarrow> insert_outcome"

text \<open>
  Every call that leaves the component, in the order in which it is made. The notifier,
  the navigator and the console are fire-and-forget: they return nothing that the code
  reads.
\<close>

datatype effect =
  SignUpCall signUp_request
| InsertCall establishment_row
| Toast toast_args
| Navigate string
| ConsoleError js_exn

text \<open>The two \<^verbatim>\<open>useState\<close> cells of the component.\<close>

record ui_state =
  isLoading :: bool
  errorMessage :: string

section \<open>The submission workflow \<^verbatim>\<open>onSubmit\<close>\<close>

text \<open>The JavaScript \<^verbatim>\<open>s || d\<close> on an optional string: the empty string is falsy.\<close>

fun or_else :: "string option \<Rightarrow> string \<Rightarrow> string" where
  "or_else None d = d"
| "or_else (Some s) d = (if s = [] then d else s)"

text \<open>\<^verbatim>\<open>data.middleName || null\<close>.\<close>

fun or_null :: "string option \<Rightarrow> string option" where
  "or_null None = None"
| "or_null (Some s) = (if s = [] then None else Some s)"

definition signUp_args :: "SignupFormData \<Rightarrow> signUp_request" where
  "signUp_args d =
     \<lparr>req_email = email d,
      req_password = password d,
      req_data =
        \<lparr>first_name = firstName d,
         middle_name = or_null (middleName d),
         last_name = lastName d,
         role = ''establishment_owner''\<rparr>\<rparr>"

definition insert_args :: "string \<Rightarrow> EstablishmentData \<Rightarrow> establishment_row" where
  "insert_args uid establishment =
     \<lparr>owner_id = uid,
      row_name = name establishment,
      dti_cert_no = dtiCertNo establishment,
      status = ''unregistered''\<rparr>"

definition success_toast :: toast_args where
  "success_toast =
     \<lparr>title = ''Registration successful'',
      description = ''You can now login to your account.'',
      variant = None,
      duration = 3000\<rparr>"

definition failure_toast :: "string option \<Rightarrow> toast_args" where
  "failure_toast m =
     \<lparr>title = ''Registration failed'',
      description = or_else m ''An error occurred during registration.'',
      variant = Some destructive,
      duration = 5000\<rparr>"

text \<open>
  The \<^verbatim>\<open>for ... of\<close> loop over \<^verbatim>\<open>data.establishments\<close>: each insertion is awaited
  before the next entry is looked at, and \<^verbatim>\<open>throw estError\<close> leaves the loop. The result
  is \<open>Inl e\<close> when \<open>e\<close> was thrown and \<open>Inr ()\<close> when the loop ran to its end, together
  with the calls made. \<open>k\<close> counts the insertion requests already issued.
\<close>

fun insert_loop ::
  "remote \<Rightarrow> string \<Rightarrow> nat \<Rightarrow> EstablishmentData list \<Rightarrow> (js_exn + unit) \<times> effect list" where
  "insert_loop env uid k [] = (Inr (), [])"
| "insert_loop env uid k (establishment # rest) =
     (let row = insert_args uid establishment in
      case insert env k row of
        InsertThrew e \<Rightarrow> (Inl e, [InsertCall row])
      | InsertResolved (Some estError) \<Rightarrow> (Inl (Exn (Some (message estError))), [InsertCall row])
      | InsertResolved None \<Rightarrow>
          (let (r, calls) = insert_loop env uid (Suc k) rest
           in (r, InsertCall row # calls)))"

text \<open>The body of \<^verbatim>\<open>try\<close>.\<close>

definition try_block :: "remote \<Rightarrow> SignupFormData \<Rightarrow> (js_exn + unit) \<times> effect list" where
  "try_block env d =
     (let req = signUp_args d in
      case signUp env req of
        SignUpThrew e \<Rightarrow> (Inl e, [SignUpCall req])
      | SignUpResolved authData_user authError \<Rightarrow>
          (case authError of
             Some err \<Rightarrow> (Inl (Exn (Some (message err))), [SignUpCall req])
           | None \<Rightarrow>
               (case authData_user of
                  None \<Rightarrow> (Inr (), [SignUpCall req])
                | Some u \<Rightarrow>
                    (case insert_loop env (user_id u) 0 (establishments d) of
                       (Inl e, calls) \<Rightarrow> (Inl e, SignUpCall req # calls)
                     | (Inr _, calls) \<Rightarrow>
                         (Inr (),
                          SignUpCall req # calls
                            @ [Toast success_toast, Navigate ''/owner/login''])))))"

text \<open>
  The body of \<^verbatim>\<open>catch (error: any)\<close>. The error is logged first; reading
  \<^verbatim>\<open>error.message\<close> of a nullish value then raises, and nothing after it runs.
\<close>

fun catch_block :: "js_exn \<Rightarrow> ui_state \<Rightarrow> (js_exn + unit) \<times> ui_state \<times> effect list" where
  "catch_block (Exn m) s =
     (Inr (),
      s\<lparr>errorMessage := or_else m ''Failed to register. Please try again.''\<rparr>,
      [ConsoleError (Exn m), Toast (failure_toast m)])"
| "catch_block Nullish s = (Inl TypeError, s, [ConsoleError Nullish])"

text \<open>The body of \<^verbatim>\<open>finally\<close>.\<close>

definition finally_block :: "ui_state \<Rightarrow> ui_state" where
  "finally_block s = s\<lparr>isLoading := False\<rparr>"

text \<open>
  \<^verbatim>\<open>onSubmit\<close>: the two state updates before \<^verbatim>\<open>try\<close>, the \<^verbatim>\<open>try\<close> body, the
  handler when the body threw, and \<^verbatim>\<open>finally\<close> in every case. The result is how the
  run completed (\<open>Inl e\<close>: the returned promise rejects with \<open>e\<close>), the state of the
  component afterwards and the calls made, in order.
\<close>

definition onSubmit ::
  "remote \<Rightarrow> SignupFormData \<Rightarrow> ui_state \<Rightarrow> (js_exn + unit) \<times> ui_state \<times> effect list" where
  "onSubmit env d s0 =
     (let s1 = s0\<lparr>isLoading := True, errorMessage := []\<rparr> in
      case try_block env d of
        (Inr _, calls) \<Rightarrow> (Inr (), finally_block s1, calls)
      | (Inl e, calls) \<Rightarrow>
          (case catch_block e s1 of
             (r, s2, calls') \<Rightarrow> (r, finally_block s2, calls @ calls')))"

definition final_state ::
  "(js_exn + unit) \<times> ui_state \<times> effect list \<Rightarrow> ui_state" where
  "final_state r = fst (snd r)"

definition calls_made ::
  "(js_exn + unit) \<times> ui_state \<times> effect list \<Rightarrow> effect list" where
  "calls_made r = snd (snd r)"

text \<open>Reading the calls of a run by kind, each list in the order of the calls.\<close>

fun signUp_calls :: "effect list \<Rightarrow> signUp_request list" where
  "signUp_calls [] = []"
| "signUp_calls (SignUpCall req # es) = req # signUp_calls es"
| "signUp_calls (InsertCall row # es) = signUp_calls es"
| "signUp_calls (Toast t # es) = signUp_calls es"
| "signUp_calls (Navigate p # es) = signUp_calls es"
| "signUp_calls (ConsoleError e # es) = signUp_calls es"

fun insert_calls :: "effect list \<Rightarrow> establishment_row list" where
  "insert_calls [] = []"
| "insert_calls (InsertCall row # es) = row # insert_calls es"
| "insert_calls (SignUpCall req # es) = insert_calls es"
| "insert_calls (Toast t # es) = insert_calls es"
| "insert_calls (Navigate p # es) = insert_calls es"
| "insert_calls (ConsoleError e # es) = insert_calls es"

fun toasts :: "effect list \<Rightarrow> toast_args list" where
  "toasts [] = []"
| "toasts (Toast t # es) = t # toasts es"
| "toasts (SignUpCall req # es) = toasts es"
| "toasts (InsertCall row # es) = toasts es"
| "toasts (Navigate p # es) = toasts es"
| "toasts (ConsoleError e # es) = toasts es"

fun navigations :: "effect list \<Rightarrow> string list" where
  "navigations [] = []"
| "navigations (Navigate p # es) = p # navigations es"
| "navigations (SignUpCall req # es) = navigations es"
| "navigations (InsertCall row # es) = navigations es"
| "navigations (Toast t # es) = navigations es"
| "navigations (ConsoleError e # es) = navigations es"

text \<open>
  The component keeps no variable for the phases Idle, Submitting, Success and Failed of
  the specification; they are read off what it does keep. \<open>Submitting\<close>: the
  in-progress flag is set. \<open>Failed\<close>: the inline error message is set (the banner
  \<^verbatim>\<open>{errorMessage && ...}\<close> is shown). \<open>Success\<close>: neither, and the run navigated
  to the login page. \<open>Idle\<close>: none of these.
\<close>

datatype phase = Idle | Submitting | Success | Failed

definition phase_of :: "(js_exn + unit) \<times> ui_state \<times> effect list \<Rightarrow> phase" where
  "phase_of r =
     (if isLoading (final_state r) then Submitting
      else if errorMessage (final_state r) \<noteq> [] then Failed
      else if ''/owner/login'' \<in> set (navigations (calls_made r)) then Success
      else Idle)"

text \<open>
  Account creation succeeded, and so did the insertion for every establishment entry.
\<close>

definition all_succeed :: "remote \<Rightarrow> SignupFormData \<Rightarrow> bool" where
  "all_succeed env d =
     (case signUp env (signUp_args d) of
        SignUpResolved (Some u) None \<Rightarrow>
          list_all
            (\<lambda>k. insert env k (insert_args (user_id u) (establishments d ! k)) = InsertResolved None)
            [0..<length (establishments d)]
      | _ \<Rightarrow> False)"

subsection \<open>Sample runs\<close>

definition sample_form :: SignupFormData where
  "sample_form =
     \<lparr>firstName = ''Ana'', middleName = Some [], lastName = ''Cruz'',
      email = ''a@b.co'', password = ''longenough1'', confirmPassword = ''longenough1'',
      establishments =
        [\<lparr>name = ''Cafe Uno'', dtiCertNo = ''DTI-001''\<rparr>,
         \<lparr>name = ''Cafe Dos'', dtiCertNo = ''DTI-002''\<rparr>,
         \<lparr>name = ''Cafe Tres'', dtiCertNo = ''DTI-003''\<rparr>]\<rparr>"

definition idle_ui :: ui_state where
  "idle_ui = \<lparr>isLoading = False, errorMessage = []\<rparr>"

definition remote_all_ok :: remote where
  "remote_all_ok =
     \<lparr>signUp = (\<lambda>req. SignUpResolved (Some (User ''u-1'')) None),
      insert = (\<lambda>k row. InsertResolved None)\<rparr>"

definition remote_insert_fails_at :: "nat \<Rightarrow> remote" where
  "remote_insert_fails_at n =
     \<lparr>signUp = (\<lambda>req. SignUpResolved (Some (User ''u-1'')) None),
      insert = (\<lambda>k row. if k = n then InsertResolved (Some (RemoteError ''duplicate key''))
                          else InsertResolved None)\<rparr>"

definition remote_signUp_rejected :: remote where
  "remote_signUp_rejected =
     \<lparr>signUp = (\<lambda>req. SignUpResolved None (Some (RemoteError ''User already registered''))),
      insert = (\<lambda>k row. InsertResolved None)\<rparr>"

definition remote_throwing_null :: remote where
  "remote_throwing_null =
     \<lparr>signUp = (\<lambda>req. SignUpThrew Nullish),
      insert = (\<lambda>k row. InsertResolved None)\<rparr>"

definition remote_no_identity :: remote where
  "remote_no_identity =
     \<lparr>signUp = (\<lambda>req. SignUpResolved None None),
      insert = (\<lambda>k row. InsertResolved None)\<rparr>"

section \<open>The establishments list\<close>

text \<open>
  \<^verbatim>\<open>useForm\<close> starts the list from \<^verbatim>\<open>defaultValues\<close>. The plus button calls
  \<^verbatim>\<open>append({ name: "", dtiCertNo: "" })\<close>; the minus button of the entry at \<open>index\<close>
  calls \<^verbatim>\<open>remove(index)\<close> and is rendered only under \<^verbatim>\<open>index > 0\<close>, inside
  \<^verbatim>\<open>fields.map\<close>, that is for the indices of the current list. \<open>append_entry\<close> and
  \<open>remove_entry\<close> are \<^verbatim>\<open>append\<close> and \<^verbatim>\<open>remove\<close> of \<^verbatim>\<open>useFieldArray\<close>:
  the first adds its argument at the end, the second drops the entry at the index and
  leaves a list without that index as it is.
\<close>

definition blank_entry :: EstablishmentData where
  "blank_entry = \<lparr>name = [], dtiCertNo = []\<rparr>"

definition defaultValues :: "EstablishmentData list" where
  "defaultValues = [blank_entry]"

definition append_entry :: "EstablishmentData \<Rightarrow> EstablishmentData list \<Rightarrow> EstablishmentData list" where
  "append_entry v entries = entries @ [v]"

definition remove_entry :: "nat \<Rightarrow> EstablishmentData list \<Rightarrow> EstablishmentData list" where
  "remove_entry index entries = take index entries @ drop (Suc index) entries"

datatype click = Plus_button | Minus_button nat

fun offered :: "EstablishmentData list \<Rightarrow> click \<Rightarrow> bool" where
  "offered entries Plus_button = True"
| "offered entries (Minus_button index) = (index < length entries \<and> index > 0)"

text \<open>A click on a button that is rendered; \<open>None\<close> when the button is not there.\<close>

fun on_click :: "click \<Rightarrow> EstablishmentData list \<Rightarrow> EstablishmentData list option" where
  "on_click Plus_button entries = Some (append_entry blank_entry entries)"
| "on_click (Minus_button index) entries =
     (if offered entries (Minus_button index) then Some (remove_entry index entries) else None)"

fun on_clicks :: "click list \<Rightarrow> EstablishmentData list \<Rightarrow> EstablishmentData list option" where
  "on_clicks [] entries = Some entries"
| "on_clicks (c # cs) entries =
     (case on_click c entries of None \<Rightarrow> None | Some entries' \<Rightarrow> on_clicks cs entries')"

section \<open>Validation of the e-mail field\<close>

subsection \<open>Regular expressions and \<^verbatim>\<open>RegExp.prototype.test\<close>\<close>

text \<open>
  The fragment of JavaScript's patterns that the e-mail pattern uses: character classes of
  single characters and ranges, literal characters, sequence, \<^verbatim>\<open>*\<close> (from which \<^verbatim>\<open>+\<close>
  and \<^verbatim>\<open>{n,}\<close> are built), and the flag \<^verbatim>\<open>i\<close>. \<open>Null\<close>, \<open>Eps\<close> and \<open>Alt\<close> are
  there for the matcher, which works by derivatives.
\<close>

datatype class_item = Single char | Range char char

datatype regex =
  Null
| Eps
| Lit char
| Class "class_item list"
| Alt regex regex
| Seq regex regex
| Star regex

definition Plus :: "regex \<Rightarrow> regex" where
  "Plus r = Seq r (Star r)"

fun at_least :: "nat \<Rightarrow> regex \<Rightarrow> regex" where
  "at_least 0 r = Star r"
| "at_least (Suc n) r = Seq r (at_least n r)"

text \<open>
  Under the flag \<^verbatim>\<open>i\<close> (without \<^verbatim>\<open>u\<close>) two characters match when their
  canonical forms agree, and the canonical form of an ASCII character is its upper case;
  a character outside ASCII never becomes an ASCII one. So a character lies in a range
  when it, its upper case or its lower case does. This is the matching of patterns whose
  literals and classes are ASCII, as those of the e-mail pattern are; a character of a
  string is a \<open>char\<close>, and one outside ASCII matches none of them.
\<close>

definition to_upper :: "char \<Rightarrow> char" where
  "to_upper c =
     (if CHR ''a'' \<le> c \<and> c \<le> CHR ''z'' then char_of (of_char c - (32::nat)) else c)"

definition to_lower :: "char \<Rightarrow> char" where
  "to_lower c =
     (if CHR ''A'' \<le> c \<and> c \<le> CHR ''Z'' then char_of (of_char c + (32::nat)) else c)"

definition same_char :: "bool \<Rightarrow> char \<Rightarrow> char \<Rightarrow> bool" where
  "same_char ignoreCase a c = (if ignoreCase then to_upper a = to_upper c else a = c)"

fun in_item :: "bool \<Rightarrow> class_item \<Rightarrow> char \<Rightarrow> bool" where
  "in_item ignoreCase (Single a) c = same_char ignoreCase a c"
| "in_item ignoreCase (Range lo hi) c =
     ((lo \<le> c \<and> c \<le> hi) \<or>
      (ignoreCase \<and>
        ((lo \<le> to_upper c \<and> to_upper c \<le> hi) \<or> (lo \<le> to_lower c \<and> to_lower c \<le> hi))))"

definition in_class :: "bool \<Rightarrow> class_item list \<Rightarrow> char \<Rightarrow> bool" where
  "in_class ignoreCase items c = list_ex (\<lambda>item. in_item ignoreCase item c) items"

fun nullable :: "regex \<Rightarrow> bool" where
  "nullable Null = False"
| "nullable Eps = True"
| "nullable (Lit a) = False"
| "nullable (Class items) = False"
| "nullable (Alt r s) = (nullable r \<or> nullable s)"
| "nullable (Seq r s) = (nullable r \<and> nullable s)"
| "nullable (Star r) = True"

fun deriv :: "bool \<Rightarrow> char \<Rightarrow> regex \<Rightarrow> regex" where
  "deriv i c Null = Null"
| "deriv i c Eps = Null"
| "deriv i c (Lit a) = (if same_char i a c then Eps else Null)"
| "deriv i c (Class items) = (if in_class i items c then Eps else Null)"
| "deriv i c (Alt r s) = Alt (deriv i c r) (deriv i c s)"
| "deriv i c (Seq r s) =
     (if nullable r then Alt (Seq (deriv i c r) s) (deriv i c s) else Seq (deriv i c r) s)"
| "deriv i c (Star r) = Seq (deriv i c r) (Star r)"

text \<open>
  \<^verbatim>\<open>/^r$/.test(s)\<close>, with \<open>i\<close> the flag \<^verbatim>\<open>i\<close>: the whole of \<open>s\<close> matches \<open>r\<close>.
\<close>

definition regex_test :: "bool \<Rightarrow> regex \<Rightarrow> string \<Rightarrow> bool" where
  "regex_test i r s = nullable (foldl (\<lambda>r c. deriv i c r) r s)"

text \<open>The strings a pattern denotes, against which the matcher is verified.\<close>

definition lang_seq :: "string set \<Rightarrow> string set \<Rightarrow> string set" where
  "lang_seq A B = {u @ v | u v. u \<in> A \<and> v \<in> B}"

inductive_set lang_star :: "string set \<Rightarrow> string set" for A :: "string set" where
  star_empty: "[] \<in> lang_star A"
| star_more: "u \<in> A \<Longrightarrow> v \<in> lang_star A \<Longrightarrow> u @ v \<in> lang_star A"

fun lang :: "bool \<Rightarrow> regex \<Rightarrow> string set" where
  "lang i Null = {}"
| "lang i Eps = {[]}"
| "lang i (Lit a) = {[c] | c. same_char i a c}"
| "lang i (Class items) = {[c] | c. in_class i items c}"
| "lang i (Alt r s) = lang i r \<union> lang i s"
| "lang i (Seq r s) = lang_seq (lang i r) (lang i s)"
| "lang i (Star r) = lang_star (lang i r)"

subsection \<open>The rules registered for the field\<close>

text \<open>
  \<^verbatim>\<open>/^[A-Z0-9._%+-]+@[A-Z0-9.-]+\.[A-Z]{2,}$/i\<close>
\<close>

definition email_pattern :: regex where
  "email_pattern =
     Seq (Plus (Class [Range CHR ''A'' CHR ''Z'', Range CHR ''0'' CHR ''9'', Single CHR ''.'',
                       Single CHR ''_'', Single CHR ''%'', Single CHR ''+'', Single CHR ''-'']))
    (Seq (Lit CHR ''@'')
    (Seq (Plus (Class [Range CHR ''A'' CHR ''Z'', Range CHR ''0'' CHR ''9'', Single CHR ''.'',
                       Single CHR ''-'']))
    (Seq (Lit CHR ''.'')
         (at_least (Suc (Suc 0)) (Class [Range CHR ''A'' CHR ''Z''])))))"

text \<open>
  The outcome of validating the field under
  \<^verbatim>\<open>register("email", { required: ..., pattern: { value: ..., message: ... } })\<close>: the
  form library checks \<^verbatim>\<open>required\<close> first and reports one error, of the first rule
  that fails. The rules \<^verbatim>\<open>required\<close> and \<^verbatim>\<open>pattern\<close> carry the names the
  specification gives their failures.
\<close>

datatype rule = RequiredFieldMissing | InvalidFormat

definition validate_email :: "string \<Rightarrow> (rule \<times> string) option" where
  "validate_email v =
     (if v = [] then Some (RequiredFieldMissing, ''Email is required'')
      else if \<not> regex_test True email_pattern v then Some (InvalidFormat, ''Invalid email address'')
      else None)"

subsection \<open>The format in the words of the specification\<close>

text \<open>
  \<open>local-part@domain.tld\<close>: a local part of letters, digits and \<open>. _ % + -\<close>, a domain
  with at least one dot, a top-level domain of at least two letters, upper and lower case
  alike. Before its last dot the domain has letters, digits, dots and hyphens, as the
  pattern of the source has it.
\<close>

definition is_letter :: "char \<Rightarrow> bool" where
  "is_letter c = ((CHR ''a'' \<le> c \<and> c \<le> CHR ''z'') \<or> (CHR ''A'' \<le> c \<and> c \<le> CHR ''Z''))"

definition is_digit :: "char \<Rightarrow> bool" where
  "is_digit c = (CHR ''0'' \<le> c \<and> c \<le> CHR ''9'')"

definition local_part_char :: "char \<Rightarrow> bool" where
  "local_part_char c = (is_letter c \<or> is_digit c \<or> c \<in> set ''._%+-'')"

definition domain_char :: "char \<Rightarrow> bool" where
  "domain_char c = (is_letter c \<or> is_digit c \<or> c \<in> set ''.-'')"

definition spec_email_format :: "string \<Rightarrow> bool" where
  "spec_email_format s =
     (\<exists>local_part domain tld.
        s = local_part @ ''@'' @ domain @ ''.'' @ tld
        \<and> local_part \<noteq> [] \<and> list_all local_part_char local_part
        \<and> domain \<noteq> [] \<and> list_all domain_char domain
        \<and> 2 \<le> length tld \<and> list_all is_letter tld)"

section \<open>The input control \<^verbatim>\<open>InputField\<close>\<close>

text \<open>
  The properties of \<^verbatim>\<open>InputField.tsx\<close>: \<^verbatim>\<open>type\<close> is optional and defaults to
  \<^verbatim>\<open>"text"\<close>; \<open>value\<close> stands for the attributes passed through with
  \<^verbatim>\<open>{...props}\<close>. The component's own state is the one \<^verbatim>\<open>useState\<close> cell.
\<close>

record InputFieldProps =
  label :: string
  icon :: string
  showPasswordToggle :: bool
  type :: "string option"
  "value" :: string

record InputField_state =
  showPassword :: bool

definition initial_state :: InputField_state where
  "initial_state = \<lparr>showPassword = False\<rparr>"

definition togglePassword :: "InputField_state \<Rightarrow> InputField_state" where
  "togglePassword st = st\<lparr>showPassword := \<not> showPassword st\<rparr>"

definition inputType :: "InputFieldProps \<Rightarrow> InputField_state \<Rightarrow> string" where
  "inputType props st =
     (if showPassword st then ''text''
      else (case type props of None \<Rightarrow> ''text'' | Some t \<Rightarrow> t))"

text \<open>The \<^verbatim>\<open><input>\<close> element that is rendered.\<close>

record input_element =
  element_type :: string
  element_value :: string

definition render :: "InputFieldProps \<Rightarrow> InputField_state \<Rightarrow> input_element" where
  "render props st = \<lparr>element_type = inputType props st, element_value = value props\<rparr>"

definition password_field :: InputFieldProps where
  "password_field =
     \<lparr>label = ''Password:'', icon = ''lock'', showPasswordToggle = True,
      type = Some ''password'', value = ''longenough1''\<rparr>"

definition name_field :: InputFieldProps where
  "name_field =
     \<lparr>label = ''First Name:'', icon = ''person'', showPasswordToggle = False,
      type = Some ''text'', value = ''Ana''\<rparr>"

section \<open>Properties of the workflow\<close>

subsection \<open>The calls of the loop and of a run\<close>

lemma insert_calls_append: "insert_calls (xs @ ys) = insert_calls xs @ insert_calls ys"
  by (induction xs rule: insert_calls.induct) simp_all
lemma toasts_append: "toasts (xs @ ys) = toasts xs @ toasts ys"
  by (induction xs rule: toasts.induct) simp_all
lemma navigations_append: "navigations (xs @ ys) = navigations xs @ navigations ys"
  by (induction xs rule: navigations.induct) simp_all

lemma insert_calls_map: "insert_calls (map (\<lambda>e. InsertCall (f e)) xs) = map f xs"
  by (induction xs) simp_all
lemma toasts_map: "toasts (map (\<lambda>e. InsertCall (f e)) xs) = []"
  by (induction xs) simp_all
lemma navigations_map: "navigations (map (\<lambda>e. InsertCall (f e)) xs) = []"
  by (induction xs) simp_all

lemma insert_loop_all_ok:
  "\<forall>j<length ests. insert env (n + j) (insert_args uid (ests ! j)) = InsertResolved None
   \<Longrightarrow> insert_loop env uid n ests = (Inr (), map (\<lambda>e. InsertCall (insert_args uid e)) ests)"
proof (induction ests arbitrary: n)
  case Nil
  show ?case by simp
next
  case (Cons e es)
  from Cons.prems have hd_ok: "insert env n (insert_args uid e) = InsertResolved None"
    by (metis add.right_neutral length_greater_0_conv list.discI nth_Cons_0)
  have "\<forall>j<length es. insert env (Suc n + j) (insert_args uid (es ! j)) = InsertResolved None"
  proof (intro allI impI)
    fix j assume "j < length es"
    with Cons.prems have "insert env (n + Suc j) (insert_args uid ((e # es) ! Suc j)) = InsertResolved None"
      by (metis Suc_less_eq length_Cons)
    then show "insert env (Suc n + j) (insert_args uid (es ! j)) = InsertResolved None" by simp
  qed
  from Cons.IH[OF this] hd_ok show ?case by simp
qed

lemma insert_loop_first_failure:
  "k < length ests \<Longrightarrow>
   \<forall>j<k. insert env (n + j) (insert_args uid (ests ! j)) = InsertResolved None \<Longrightarrow>
   insert env (n + k) (insert_args uid (ests ! k)) = InsertResolved (Some err) \<Longrightarrow>
   insert_loop env uid n ests =
     (Inl (Exn (Some (message err))), map (\<lambda>e. InsertCall (insert_args uid e)) (take (Suc k) ests))"
proof (induction ests arbitrary: n k)
  case Nil
  then show ?case by simp
next
  case (Cons e es)
  show ?case
  proof (cases k)
    case 0
    with Cons.prems show ?thesis by simp
  next
    case (Suc k')
    from Cons.prems Suc have hd_ok: "insert env n (insert_args uid e) = InsertResolved None"
      by (metis add.right_neutral nth_Cons_0 zero_less_Suc)
    have len: "k' < length es" using Cons.prems Suc by simp
    have earlier: "\<forall>j<k'. insert env (Suc n + j) (insert_args uid (es ! j)) = InsertResolved None"
    proof (intro allI impI)
      fix j assume "j < k'"
      then have "Suc j < k" using Suc by simp
      with Cons.prems have "insert env (n + Suc j) (insert_args uid ((e # es) ! Suc j)) = InsertResolved None"
        by blast
      then show "insert env (Suc n + j) (insert_args uid (es ! j)) = InsertResolved None" by simp
    qed
    have at_k: "insert env (Suc n + k') (insert_args uid (es ! k')) = InsertResolved (Some err)"
      using Cons.prems Suc by simp
    from Cons.IH[OF len earlier at_k] hd_ok Suc show ?thesis by simp
  qed
qed

lemma insert_loop_returns_only_if_all_ok:
  "fst (insert_loop env uid n ests) = Inr u \<Longrightarrow> j < length ests \<Longrightarrow>
   insert env (n + j) (insert_args uid (ests ! j)) = InsertResolved None"
proof (induction ests arbitrary: n j)
  case Nil
  then show ?case by simp
next
  case (Cons e es)
  from Cons.prems(1) have hd_ok: "insert env n (insert_args uid e) = InsertResolved None"
    by (simp add: Let_def split: insert_outcome.splits option.splits)
  show ?case
  proof (cases j)
    case 0
    with hd_ok show ?thesis by simp
  next
    case (Suc j')
    from Cons.prems(1) hd_ok have "fst (insert_loop env uid (Suc n) es) = Inr u"
      by (simp add: Let_def split: prod.splits)
    from Cons.IH[OF this, of j'] Cons.prems(2) Suc show ?thesis by simp
  qed
qed

lemma insert_loop_calls_prefix:
  "\<exists>m\<le>length ests.
     snd (insert_loop env uid n ests) = map (\<lambda>e. InsertCall (insert_args uid e)) (take m ests)
     \<and> (\<forall>j. Suc j < m \<longrightarrow> insert env (n + j) (insert_args uid (ests ! j)) = InsertResolved None)
     \<and> (m < length ests \<longrightarrow>
          0 < m \<and> insert env (n + (m - 1)) (insert_args uid (ests ! (m - 1))) \<noteq> InsertResolved None)"
proof (induction ests arbitrary: n)
  case Nil
  show ?case by simp
next
  case (Cons e es)
  show ?case
  proof (cases "insert env n (insert_args uid e) = InsertResolved None")
    case False
    then have "snd (insert_loop env uid n (e # es)) = [InsertCall (insert_args uid e)]"
      by (simp add: Let_def split: insert_outcome.splits option.splits)
    with False show ?thesis
      by (intro exI[of _ 1]) simp
  next
    case True
    from Cons.IH[of "Suc n"] obtain m where m: "m \<le> length es"
      and calls: "snd (insert_loop env uid (Suc n) es) = map (\<lambda>e. InsertCall (insert_args uid e)) (take m es)"
      and before: "\<forall>j. Suc j < m \<longrightarrow> insert env (Suc n + j) (insert_args uid (es ! j)) = InsertResolved None"
      and stop: "m < length es \<longrightarrow>
          0 < m \<and> insert env (Suc n + (m - 1)) (insert_args uid (es ! (m - 1))) \<noteq> InsertResolved None"
      by blast
    have c1: "snd (insert_loop env uid n (e # es)) =
        map (\<lambda>e. InsertCall (insert_args uid e)) (take (Suc m) (e # es))"
      using True calls by (auto simp: Let_def split: prod.splits)
    have c2: "\<forall>j. Suc j < Suc m \<longrightarrow>
        insert env (n + j) (insert_args uid ((e # es) ! j)) = InsertResolved None"
    proof (intro allI impI)
      fix j assume j: "Suc j < Suc m"
      show "insert env (n + j) (insert_args uid ((e # es) ! j)) = InsertResolved None"
      proof (cases j)
        case 0
        with True show ?thesis by simp
      next
        case (Suc j')
        with j before have "insert env (Suc n + j') (insert_args uid (es ! j')) = InsertResolved None"
          by simp
        with Suc show ?thesis by simp
      qed
    qed
    have c3: "Suc m < length (e # es) \<longrightarrow>
        0 < Suc m \<and> insert env (n + (Suc m - 1)) (insert_args uid ((e # es) ! (Suc m - 1))) \<noteq> InsertResolved None"
    proof
      assume "Suc m < length (e # es)"
      then have lt: "m < length es" by simp
      with stop have pos: "0 < m"
        and ne: "insert env (Suc n + (m - 1)) (insert_args uid (es ! (m - 1))) \<noteq> InsertResolved None"
        by blast+
      from pos obtain m' where m': "m = Suc m'" by (cases m) simp_all
      with ne show "0 < Suc m \<and> insert env (n + (Suc m - 1)) (insert_args uid ((e # es) ! (Suc m - 1))) \<noteq> InsertResolved None"
        by simp
    qed
    from m have "Suc m \<le> length (e # es)" by simp
    with c1 c2 c3 show ?thesis by blast
  qed
qed

lemma or_else_nonempty: "d \<noteq> [] \<Longrightarrow> or_else m d \<noteq> []"
  by (cases m) simp_all

lemma onSubmit_on_reported_signUp_error:
  assumes "signUp env (signUp_args d) = SignUpResolved u (Some authError)"
  shows "onSubmit env d s0 =
     (Inr (),
      s0\<lparr>isLoading := False,
         errorMessage := or_else (Some (message authError)) ''Failed to register. Please try again.''\<rparr>,
      [SignUpCall (signUp_args d),
       ConsoleError (Exn (Some (message authError))),
       Toast (failure_toast (Some (message authError)))])"
  using assms by (simp add: onSubmit_def try_block_def finally_block_def Let_def)

lemma onSubmit_on_no_identity:
  assumes "signUp env (signUp_args d) = SignUpResolved None None"
  shows "onSubmit env d s0 =
     (Inr (), s0\<lparr>isLoading := False, errorMessage := []\<rparr>, [SignUpCall (signUp_args d)])"
  using assms by (simp add: onSubmit_def try_block_def finally_block_def Let_def)

lemma onSubmit_on_insert_error:
  assumes "signUp env (signUp_args d) = SignUpResolved (Some u) None"
    and "insert_loop env (user_id u) 0 (establishments d) = (Inl (Exn m), calls)"
  shows "onSubmit env d s0 =
     (Inr (),
      s0\<lparr>isLoading := False,
         errorMessage := or_else m ''Failed to register. Please try again.''\<rparr>,
      SignUpCall (signUp_args d) # calls @ [ConsoleError (Exn m), Toast (failure_toast m)])"
  using assms by (simp add: onSubmit_def try_block_def finally_block_def Let_def)

lemma onSubmit_on_success:
  assumes "signUp env (signUp_args d) = SignUpResolved (Some u) None"
    and "insert_loop env (user_id u) 0 (establishments d) = (Inr (), calls)"
  shows "onSubmit env d s0 =
     (Inr (), s0\<lparr>isLoading := False, errorMessage := []\<rparr>,
      SignUpCall (signUp_args d) # calls @ [Toast success_toast, Navigate ''/owner/login''])"
  using assms by (simp add: onSubmit_def try_block_def finally_block_def Let_def)

lemma all_succeed_iff:
  "all_succeed env d \<longleftrightarrow>
     (\<exists>u. signUp env (signUp_args d) = SignUpResolved (Some u) None \<and>
          (\<forall>k<length (establishments d).
             insert env k (insert_args (user_id u) (establishments d ! k)) = InsertResolved None))"
  by (auto simp: all_succeed_def list_all_iff split: signUp_outcome.splits option.splits)

lemma try_block_navigates_only_after_return:
  "navigations (snd (try_block env d)) \<noteq> [] \<Longrightarrow> all_succeed env d"
proof -
  assume nav: "navigations (snd (try_block env d)) \<noteq> []"
  show "all_succeed env d"
  proof (cases "signUp env (signUp_args d)")
    case (SignUpThrew e)
    with nav show ?thesis by (simp add: try_block_def)
  next
    case (SignUpResolved authData_user authError)
    show ?thesis
    proof (cases authError)
      case (Some err)
      with nav SignUpResolved show ?thesis by (simp add: try_block_def)
    next
      case None
      show ?thesis
      proof (cases authData_user)
        case None
        with nav SignUpResolved \<open>authError = None\<close> show ?thesis by (simp add: try_block_def)
      next
        case (Some u)
        obtain r calls where loop: "insert_loop env (user_id u) 0 (establishments d) = (r, calls)"
          by (cases "insert_loop env (user_id u) 0 (establishments d)")
        have calls_eq: "navigations calls = []"
          using insert_loop_calls_prefix[of "establishments d" env "user_id u" 0] loop
          by (auto simp: navigations_map)
        have "r = Inr ()"
        proof (cases r)
          case (Inl e)
          with nav SignUpResolved \<open>authError = None\<close> Some loop calls_eq show ?thesis
            by (simp add: try_block_def)
        next
          case (Inr x)
          then show ?thesis by simp
        qed
        with loop have "fst (insert_loop env (user_id u) 0 (establishments d)) = Inr ()" by simp
        then have "\<forall>k<length (establishments d).
             insert env k (insert_args (user_id u) (establishments d ! k)) = InsertResolved None"
          using insert_loop_returns_only_if_all_ok[of env "user_id u" 0 "establishments d" "()"]
          by simp
        with SignUpResolved \<open>authError = None\<close> Some show ?thesis
          by (auto simp: all_succeed_iff)
      qed
    qed
  qed
qed

lemma catch_block_no_navigation: "navigations (snd (snd (catch_block e s))) = []"
  by (cases e) simp_all

lemma onSubmit_navigates_only_on_success:
  assumes "navigations (calls_made (onSubmit env d s0)) \<noteq> []"
  shows "all_succeed env d"
proof -
  obtain r calls where tb: "try_block env d = (r, calls)" by (cases "try_block env d")
  have "navigations calls \<noteq> []"
  proof (cases r)
    case (Inr x)
    with assms tb show ?thesis by (simp add: onSubmit_def calls_made_def Let_def)
  next
    case (Inl e)
    obtain r' s' calls' where cb: "catch_block e (s0\<lparr>isLoading := True, errorMessage := []\<rparr>) = (r', s', calls')"
      by (cases "catch_block e (s0\<lparr>isLoading := True, errorMessage := []\<rparr>)")
    then have "navigations calls' = []"
      using catch_block_no_navigation[of e "s0\<lparr>isLoading := True, errorMessage := []\<rparr>"] by simp
    with assms tb Inl cb show ?thesis
      by (simp add: onSubmit_def calls_made_def Let_def navigations_append)
  qed
  with tb try_block_navigates_only_after_return[of env d] show ?thesis by simp
qed

subsection \<open>The account-creation request\<close>

lemma signUp_calls_append: "signUp_calls (xs @ ys) = signUp_calls xs @ signUp_calls ys"
  by (induction xs rule: signUp_calls.induct) simp_all

lemma signUp_calls_map: "signUp_calls (map (\<lambda>e. InsertCall (f e)) xs) = []"
  by (induction xs) simp_all

lemma insert_loop_no_signUp: "signUp_calls (snd (insert_loop env uid n ests)) = []"
  using insert_loop_calls_prefix[of ests env uid n] by (auto simp: signUp_calls_map)

lemma catch_block_no_signUp: "signUp_calls (snd (snd (catch_block e s))) = []"
  by (cases e) simp_all

lemma try_block_signUp_first:
  "\<exists>rest. snd (try_block env d) = SignUpCall (signUp_args d) # rest \<and> signUp_calls rest = []"
proof (cases "signUp env (signUp_args d)")
  case (SignUpThrew e)
  then show ?thesis by (simp add: try_block_def)
next
  case (SignUpResolved authData_user authError)
  show ?thesis
  proof (cases authError)
    case (Some err)
    with SignUpResolved show ?thesis by (simp add: try_block_def)
  next
    case None
    note noerr = this
    show ?thesis
    proof (cases authData_user)
      case None
      with SignUpResolved noerr show ?thesis by (simp add: try_block_def)
    next
      case (Some u)
      obtain r calls where loop: "insert_loop env (user_id u) 0 (establishments d) = (r, calls)"
        by (cases "insert_loop env (user_id u) 0 (establishments d)")
      with insert_loop_no_signUp[of env "user_id u" 0 "establishments d"]
      have "signUp_calls calls = []" by simp
      with SignUpResolved noerr Some loop show ?thesis
        by (cases r) (simp_all add: try_block_def signUp_calls_append)
    qed
  qed
qed

lemma onSubmit_signUp_first:
  "\<exists>rest. calls_made (onSubmit env d s0) = SignUpCall (signUp_args d) # rest \<and> signUp_calls rest = []"
proof -
  obtain r calls where tb: "try_block env d = (r, calls)" by (cases "try_block env d")
  with try_block_signUp_first[of env d] obtain rest
    where calls: "calls = SignUpCall (signUp_args d) # rest" and rest: "signUp_calls rest = []"
    by auto
  show ?thesis
  proof (cases r)
    case (Inr x)
    with tb calls rest show ?thesis by (simp add: onSubmit_def calls_made_def Let_def)
  next
    case (Inl e)
    obtain r' s' calls' where cb: "catch_block e (s0\<lparr>isLoading := True, errorMessage := []\<rparr>) = (r', s', calls')"
      by (cases "catch_block e (s0\<lparr>isLoading := True, errorMessage := []\<rparr>)")
    with catch_block_no_signUp[of e "s0\<lparr>isLoading := True, errorMessage := []\<rparr>"]
    have "signUp_calls calls' = []" by simp
    with tb calls rest Inl cb show ?thesis
      by (simp add: onSubmit_def calls_made_def Let_def signUp_calls_append)
  qed
qed

text \<open>
  C7. Every run calls \<^verbatim>\<open>signUp\<close> first and exactly once, with the form's e-mail and
  password and a profile of first, middle and last name and the role
  \<open>establishment_owner\<close>; a middle name that is absent or empty is sent as \<^verbatim>\<open>null\<close>,
  and the empty string is never sent.
\<close>

theorem signUp_called_once_with_form_fields:
  "(\<exists>rest. calls_made (onSubmit env d s0) = SignUpCall (signUp_args d) # rest)
   \<and> signUp_calls (calls_made (onSubmit env d s0)) = [signUp_args d]
   \<and> signUp_args d =
       \<lparr>req_email = email d, req_password = password d,
        req_data = \<lparr>first_name = firstName d,
                    middle_name = (if middleName d = Some [] then None else middleName d),
                    last_name = lastName d,
                    role = ''establishment_owner''\<rparr>\<rparr>
   \<and> middle_name (req_data (signUp_args d)) \<noteq> Some []"
proof -
  from onSubmit_signUp_first[of env d s0] obtain rest
    where c: "calls_made (onSubmit env d s0) = SignUpCall (signUp_args d) # rest"
      and r: "signUp_calls rest = []" by blast
  have m: "or_null (middleName d) = (if middleName d = Some [] then None else middleName d)"
    by (cases "middleName d") simp_all
  have "or_null (middleName d) \<noteq> Some []"
    by (cases "middleName d") simp_all
  with c r m show ?thesis by (simp add: signUp_args_def)
qed

theorem signUp_called_once_with_form_fields_witness:
  "signUp_calls (calls_made (onSubmit remote_all_ok sample_form idle_ui)) =
     [\<lparr>req_email = ''a@b.co'', req_password = ''longenough1'',
       req_data = \<lparr>first_name = ''Ana'', middle_name = None, last_name = ''Cruz'',
                   role = ''establishment_owner''\<rparr>\<rparr>]"
  using signUp_called_once_with_form_fields[of remote_all_ok sample_form idle_ui]
  by (simp add: sample_form_def)

subsection \<open>The outcomes of a run\<close>

lemma finally_block_clears: "isLoading (finally_block s) = False"
  by (simp add: finally_block_def)

text \<open>
  C4. Whatever the remote service answers or throws, and also when the handler itself
  raises, the run ends with the in-progress indicator \<open>isLoading\<close> cleared. Every
  awaited call is taken to settle, and the notifier, the navigator, the console and the
  state setters are taken not to raise.
\<close>

theorem onSubmit_clears_isLoading:
  "isLoading (final_state (onSubmit env d s0)) = False"
  by (simp add: onSubmit_def final_state_def finally_block_clears Let_def
        split: prod.splits sum.splits)

text \<open>
  The run in which \<^verbatim>\<open>signUp\<close> throws \<^verbatim>\<open>null\<close>: the handler raises on
  \<^verbatim>\<open>error.message\<close>, the promise of \<^verbatim>\<open>onSubmit\<close> rejects, and the indicator is
  cleared all the same.
\<close>

theorem onSubmit_clears_isLoading_witness:
  "fst (onSubmit remote_throwing_null sample_form \<lparr>isLoading = True, errorMessage = ''old''\<rparr>) = Inl TypeError
   \<and> isLoading (final_state
        (onSubmit remote_throwing_null sample_form \<lparr>isLoading = True, errorMessage = ''old''\<rparr>)) = False"
proof -
  have "fst (onSubmit remote_throwing_null sample_form \<lparr>isLoading = True, errorMessage = ''old''\<rparr>) = Inl TypeError"
    by (simp add: onSubmit_def try_block_def remote_throwing_null_def Let_def)
  with onSubmit_clears_isLoading[of remote_throwing_null sample_form "\<lparr>isLoading = True, errorMessage = ''old''\<rparr>"]
  show ?thesis by simp
qed

text \<open>
  C3. When \<^verbatim>\<open>signUp\<close> answers with an error, no insertion request is made, the run
  ends in the \<open>Failed\<close> phase, exactly one notification is emitted, of the destructive
  variant, and there is no navigation.
\<close>

theorem signUp_error_aborts_before_any_insert:
  assumes "signUp env (signUp_args d) = SignUpResolved u (Some authError)"
  shows "insert_calls (calls_made (onSubmit env d s0)) = []
     \<and> phase_of (onSubmit env d s0) = Failed
     \<and> toasts (calls_made (onSubmit env d s0)) = [failure_toast (Some (message authError))]
     \<and> variant (failure_toast (Some (message authError))) = Some destructive
     \<and> navigations (calls_made (onSubmit env d s0)) = []"
proof -
  have "or_else (Some (message authError)) ''Failed to register. Please try again.'' \<noteq> []"
    by (rule or_else_nonempty) simp
  then show ?thesis
    unfolding onSubmit_on_reported_signUp_error[OF assms]
    by (simp add: calls_made_def final_state_def phase_of_def failure_toast_def)
qed

theorem signUp_error_aborts_before_any_insert_witness:
  "signUp remote_signUp_rejected (signUp_args sample_form) =
     SignUpResolved None (Some (RemoteError ''User already registered''))
   \<and> insert_calls (calls_made (onSubmit remote_signUp_rejected sample_form idle_ui)) = []
   \<and> phase_of (onSubmit remote_signUp_rejected sample_form idle_ui) = Failed
   \<and> toasts (calls_made (onSubmit remote_signUp_rejected sample_form idle_ui)) =
       [\<lparr>title = ''Registration failed'', description = ''User already registered'',
         variant = Some destructive, duration = 5000\<rparr>]
   \<and> navigations (calls_made (onSubmit remote_signUp_rejected sample_form idle_ui)) = []"
proof -
  have h: "signUp remote_signUp_rejected (signUp_args sample_form) =
     SignUpResolved None (Some (RemoteError ''User already registered''))"
    by (simp add: remote_signUp_rejected_def)
  show ?thesis
    using h signUp_error_aborts_before_any_insert[OF h, of idle_ui]
    by (simp add: failure_toast_def)
qed

text \<open>
  C2. Account creation succeeds, the insertions before the \<open>k\<close>-th succeed and the
  \<open>k\<close>-th is answered with an error. Then the calls of the run are the account
  creation, the insertion requests for the entries \<open>0..k\<close> and nothing after them but
  the log entry and one notification of failure: no request for a later entry, no
  navigation, and no call that would undo the account or the rows already written. The
  run ends in the \<open>Failed\<close> phase with the error message set.
\<close>

theorem insert_error_stops_the_loop:
  assumes "signUp env (signUp_args d) = SignUpResolved (Some u) None"
    and "k < length (establishments d)"
    and "\<forall>j<k. insert env j (insert_args (user_id u) (establishments d ! j)) = InsertResolved None"
    and "insert env k (insert_args (user_id u) (establishments d ! k)) = InsertResolved (Some estError)"
  shows "calls_made (onSubmit env d s0) =
       SignUpCall (signUp_args d)
         # map (\<lambda>e. InsertCall (insert_args (user_id u) e)) (take (Suc k) (establishments d))
         @ [ConsoleError (Exn (Some (message estError))),
            Toast (failure_toast (Some (message estError)))]
     \<and> insert_calls (calls_made (onSubmit env d s0)) =
         map (insert_args (user_id u)) (take (Suc k) (establishments d))
     \<and> phase_of (onSubmit env d s0) = Failed
     \<and> errorMessage (final_state (onSubmit env d s0)) \<noteq> []
     \<and> toasts (calls_made (onSubmit env d s0)) = [failure_toast (Some (message estError))]
     \<and> variant (failure_toast (Some (message estError))) = Some destructive
     \<and> navigations (calls_made (onSubmit env d s0)) = []"
proof -
  have loop: "insert_loop env (user_id u) 0 (establishments d) =
      (Inl (Exn (Some (message estError))),
       map (\<lambda>e. InsertCall (insert_args (user_id u) e)) (take (Suc k) (establishments d)))"
    using insert_loop_first_failure[of k "establishments d" env 0 "user_id u" estError] assms(2-4)
    by simp
  have msg: "or_else (Some (message estError)) ''Failed to register. Please try again.'' \<noteq> []"
    by (rule or_else_nonempty) simp
  show ?thesis
    unfolding onSubmit_on_insert_error[OF assms(1) loop]
    using msg
    by (simp add: calls_made_def final_state_def phase_of_def failure_toast_def
        insert_calls_append insert_calls_map toasts_append toasts_map
        navigations_append navigations_map)
qed

theorem insert_error_stops_the_loop_witness:
  "signUp (remote_insert_fails_at 1) (signUp_args sample_form) = SignUpResolved (Some (User ''u-1'')) None
   \<and> (1::nat) < length (establishments sample_form)
   \<and> insert_calls (calls_made (onSubmit (remote_insert_fails_at 1) sample_form idle_ui)) =
       [\<lparr>owner_id = ''u-1'', row_name = ''Cafe Uno'', dti_cert_no = ''DTI-001'', status = ''unregistered''\<rparr>,
        \<lparr>owner_id = ''u-1'', row_name = ''Cafe Dos'', dti_cert_no = ''DTI-002'', status = ''unregistered''\<rparr>]
   \<and> phase_of (onSubmit (remote_insert_fails_at 1) sample_form idle_ui) = Failed
   \<and> toasts (calls_made (onSubmit (remote_insert_fails_at 1) sample_form idle_ui)) =
       [\<lparr>title = ''Registration failed'', description = ''duplicate key'',
         variant = Some destructive, duration = 5000\<rparr>]
   \<and> navigations (calls_made (onSubmit (remote_insert_fails_at 1) sample_form idle_ui)) = []"
proof -
  have h1: "signUp (remote_insert_fails_at 1) (signUp_args sample_form) = SignUpResolved (Some (User ''u-1'')) None"
    by (simp add: remote_insert_fails_at_def)
  have h2: "(1::nat) < length (establishments sample_form)"
    by (simp add: sample_form_def)
  have h3: "\<forall>j<1. insert (remote_insert_fails_at 1)  j
       (insert_args (user_id (User ''u-1'')) (establishments sample_form ! j)) = InsertResolved None"
    by (simp add: remote_insert_fails_at_def)
  have h4: "insert (remote_insert_fails_at 1) 1
       (insert_args (user_id (User ''u-1'')) (establishments sample_form ! 1)) =
       InsertResolved (Some (RemoteError ''duplicate key''))"
    by (simp add: remote_insert_fails_at_def)
  show ?thesis
    using h1 h2 insert_error_stops_the_loop[OF h1 h2 h3 h4, of idle_ui]
    by (simp add: sample_form_def insert_args_def failure_toast_def)
qed

text \<open>
  C5. When account creation and every insertion succeed, the run ends in the \<open>Success\<close>
  phase, with exactly one notification, of the default (not destructive) variant, and
  exactly one navigation, to \<open>/owner/login\<close>. Conversely a run that navigates at all is
  one in which everything succeeded.
\<close>

theorem success_notifies_once_and_navigates_once:
  "(all_succeed env d \<longrightarrow>
      phase_of (onSubmit env d s0) = Success
      \<and> toasts (calls_made (onSubmit env d s0)) = [success_toast]
      \<and> variant success_toast = None
      \<and> navigations (calls_made (onSubmit env d s0)) = [''/owner/login''])
   \<and> (navigations (calls_made (onSubmit env d s0)) \<noteq> [] \<longrightarrow> all_succeed env d)"
proof (intro conjI impI)
  assume ok: "all_succeed env d"
  then obtain u where su: "signUp env (signUp_args d) = SignUpResolved (Some u) None"
    and ins: "\<forall>k<length (establishments d).
        insert env k (insert_args (user_id u) (establishments d ! k)) = InsertResolved None"
    by (auto simp: all_succeed_iff)
  have loop: "insert_loop env (user_id u) 0 (establishments d) =
      (Inr (), map (\<lambda>e. InsertCall (insert_args (user_id u) e)) (establishments d))"
    using insert_loop_all_ok[of "establishments d" env 0 "user_id u"] ins by simp
  note run = onSubmit_on_success[OF su loop, of s0]
  show "phase_of (onSubmit env d s0) = Success"
    unfolding run
    by (simp add: phase_of_def final_state_def calls_made_def navigations_append navigations_map)
  show "toasts (calls_made (onSubmit env d s0)) = [success_toast]"
    unfolding run by (simp add: calls_made_def toasts_append toasts_map)
  show "variant success_toast = None"
    by (simp add: success_toast_def)
  show "navigations (calls_made (onSubmit env d s0)) = [''/owner/login'']"
    unfolding run by (simp add: calls_made_def navigations_append navigations_map)
next
  assume "navigations (calls_made (onSubmit env d s0)) \<noteq> []"
  then show "all_succeed env d" by (rule onSubmit_navigates_only_on_success)
qed

theorem success_notifies_once_and_navigates_once_witness:
  "all_succeed remote_all_ok sample_form
   \<and> phase_of (onSubmit remote_all_ok sample_form idle_ui) = Success
   \<and> toasts (calls_made (onSubmit remote_all_ok sample_form idle_ui)) =
       [\<lparr>title = ''Registration successful'', description = ''You can now login to your account.'',
         variant = None, duration = 3000\<rparr>]
   \<and> navigations (calls_made (onSubmit remote_all_ok sample_form idle_ui)) = [''/owner/login'']
   \<and> navigations (calls_made (onSubmit (remote_insert_fails_at 0) sample_form idle_ui)) = []
   \<and> \<not> all_succeed (remote_insert_fails_at 0) sample_form"
proof -
  have h: "all_succeed remote_all_ok sample_form"
    by (simp add: all_succeed_def remote_all_ok_def list_all_iff)
  have n: "\<not> all_succeed (remote_insert_fails_at 0) sample_form"
    by (simp add: all_succeed_def remote_insert_fails_at_def sample_form_def upt_rec)
  show ?thesis
    using h n success_notifies_once_and_navigates_once[of remote_all_ok sample_form idle_ui]
      success_notifies_once_and_navigates_once[of "remote_insert_fails_at 0" sample_form idle_ui]
    by (auto simp: success_toast_def)
qed

text \<open>
  C1. A run in which \<^verbatim>\<open>signUp\<close> resolves with neither an error nor a user: the block
  under \<^verbatim>\<open>if (authData.user)\<close> is skipped and nothing is thrown. No establishment
  record is written, but no error message is set and no notification is emitted either,
  so the run does not end in the \<open>Failed\<close> phase: at this input the code does not do
  what the claim says.
\<close>

theorem no_identity_run_reports_nothing:
  "signUp remote_no_identity (signUp_args sample_form) = SignUpResolved None None
   \<and> onSubmit remote_no_identity sample_form idle_ui =
       (Inr (), idle_ui, [SignUpCall (signUp_args sample_form)])
   \<and> phase_of (onSubmit remote_no_identity sample_form idle_ui) = Idle
   \<and> errorMessage (final_state (onSubmit remote_no_identity sample_form idle_ui)) = []
   \<and> toasts (calls_made (onSubmit remote_no_identity sample_form idle_ui)) = []
   \<and> insert_calls (calls_made (onSubmit remote_no_identity sample_form idle_ui)) = []"
proof -
  have h: "signUp remote_no_identity (signUp_args sample_form) = SignUpResolved None None"
    by (simp add: remote_no_identity_def)
  show ?thesis
    unfolding onSubmit_on_no_identity[OF h]
    using h by (simp add: idle_ui_def phase_of_def final_state_def calls_made_def)
qed

lemma catch_block_no_insert: "insert_calls (snd (snd (catch_block e s))) = []"
  by (cases e) simp_all

lemma onSubmit_insert_calls:
  assumes "signUp env (signUp_args d) = SignUpResolved (Some u) None"
  shows "insert_calls (calls_made (onSubmit env d s0)) =
     insert_calls (snd (insert_loop env (user_id u) 0 (establishments d)))"
proof -
  obtain r calls where loop: "insert_loop env (user_id u) 0 (establishments d) = (r, calls)"
    by (cases "insert_loop env (user_id u) 0 (establishments d)")
  show ?thesis
  proof (cases r)
    case (Inr x)
    with assms loop show ?thesis
      by (simp add: onSubmit_def try_block_def calls_made_def Let_def insert_calls_append)
  next
    case (Inl e)
    obtain r' s' calls' where cb: "catch_block e (s0\<lparr>isLoading := True, errorMessage := []\<rparr>) = (r', s', calls')"
      by (cases "catch_block e (s0\<lparr>isLoading := True, errorMessage := []\<rparr>)")
    with catch_block_no_insert[of e "s0\<lparr>isLoading := True, errorMessage := []\<rparr>"]
    have "insert_calls calls' = []" by simp
    with assms loop Inl cb show ?thesis
      by (simp add: onSubmit_def try_block_def calls_made_def Let_def insert_calls_append)
  qed
qed

text \<open>
  C6, as amended. When account creation succeeds, the insertion requests of the run are
  those for the first \<open>m\<close> entries, in list order and one per entry; each carries the
  new account's identifier, the entry's name and certificate number and the status
  \<open>unregistered\<close>. Each request after the first is made only once the one before it
  has succeeded, and the run stops short of the last entry (\<open>m < N\<close>) only after an
  insertion that did not succeed; so every entry gets its request when no insertion fails.
\<close>

theorem insert_requests_follow_the_entries:
  assumes "signUp env (signUp_args d) = SignUpResolved (Some u) None"
  shows "\<exists>m\<le>length (establishments d).
      insert_calls (calls_made (onSubmit env d s0)) =
        map (\<lambda>e. \<lparr>owner_id = user_id u, row_name = name e, dti_cert_no = dtiCertNo e,
                   status = ''unregistered''\<rparr>)
          (take m (establishments d))
      \<and> (\<forall>j. Suc j < m \<longrightarrow>
            insert env j (insert_args (user_id u) (establishments d ! j)) = InsertResolved None)
      \<and> (m < length (establishments d) \<longrightarrow>
            0 < m \<and>
            insert env (m - 1) (insert_args (user_id u) (establishments d ! (m - 1)))
              \<noteq> InsertResolved None)"
proof -
  from insert_loop_calls_prefix[of "establishments d" env "user_id u" 0]
  obtain m where m: "m \<le> length (establishments d)"
    and calls: "snd (insert_loop env (user_id u) 0 (establishments d)) =
        map (\<lambda>e. InsertCall (insert_args (user_id u) e)) (take m (establishments d))"
    and before: "\<forall>j. Suc j < m \<longrightarrow>
        insert env j (insert_args (user_id u) (establishments d ! j)) = InsertResolved None"
    and stop: "m < length (establishments d) \<longrightarrow>
        0 < m \<and> insert env (m - 1) (insert_args (user_id u) (establishments d ! (m - 1)))
          \<noteq> InsertResolved None"
    by auto
  have rows: "insert_args (user_id u) =
      (\<lambda>e. \<lparr>owner_id = user_id u, row_name = name e, dti_cert_no = dtiCertNo e,
             status = ''unregistered''\<rparr>)"
    by (rule ext) (simp add: insert_args_def)
  have "insert_calls (calls_made (onSubmit env d s0)) =
      map (insert_args (user_id u)) (take m (establishments d))"
    unfolding onSubmit_insert_calls[OF assms] calls by (simp add: insert_calls_map)
  then have "insert_calls (calls_made (onSubmit env d s0)) =
      map (\<lambda>e. \<lparr>owner_id = user_id u, row_name = name e, dti_cert_no = dtiCertNo e,
                 status = ''unregistered''\<rparr>)
        (take m (establishments d))"
    by (simp only: rows)
  with m before stop show ?thesis by blast
qed

theorem insert_requests_follow_the_entries_witness:
  "signUp (remote_insert_fails_at 1) (signUp_args sample_form) = SignUpResolved (Some (User ''u-1'')) None
   \<and> (\<exists>m\<le>length (establishments sample_form).
      insert_calls (calls_made (onSubmit (remote_insert_fails_at 1) sample_form idle_ui)) =
        map (\<lambda>e. \<lparr>owner_id = ''u-1'', row_name = name e, dti_cert_no = dtiCertNo e,
                   status = ''unregistered''\<rparr>)
          (take m (establishments sample_form)))
   \<and> insert_calls (calls_made (onSubmit remote_all_ok sample_form idle_ui)) =
       [\<lparr>owner_id = ''u-1'', row_name = ''Cafe Uno'', dti_cert_no = ''DTI-001'', status = ''unregistered''\<rparr>,
        \<lparr>owner_id = ''u-1'', row_name = ''Cafe Dos'', dti_cert_no = ''DTI-002'', status = ''unregistered''\<rparr>,
        \<lparr>owner_id = ''u-1'', row_name = ''Cafe Tres'', dti_cert_no = ''DTI-003'', status = ''unregistered''\<rparr>]"
proof -
  have h: "signUp (remote_insert_fails_at 1) (signUp_args sample_form) = SignUpResolved (Some (User ''u-1'')) None"
    by (simp add: remote_insert_fails_at_def)
  have h': "signUp remote_all_ok (signUp_args sample_form) = SignUpResolved (Some (User ''u-1'')) None"
    by (simp add: remote_all_ok_def)
  from insert_requests_follow_the_entries[OF h', of idle_ui]
  obtain m where m: "m \<le> length (establishments sample_form)"
    and calls: "insert_calls (calls_made (onSubmit remote_all_ok sample_form idle_ui)) =
        map (\<lambda>e. \<lparr>owner_id = user_id (User ''u-1''), row_name = name e, dti_cert_no = dtiCertNo e,
                   status = ''unregistered''\<rparr>) (take m (establishments sample_form))"
    and stop: "m < length (establishments sample_form) \<longrightarrow>
        0 < m \<and> insert remote_all_ok (m - 1)
          (insert_args (user_id (User ''u-1'')) (establishments sample_form ! (m - 1)))
          \<noteq> InsertResolved None"
    by blast
  from stop have "\<not> m < length (establishments sample_form)"
    by (simp add: remote_all_ok_def)
  with m have "m = length (establishments sample_form)" by simp
  with calls have full: "insert_calls (calls_made (onSubmit remote_all_ok sample_form idle_ui)) =
       [\<lparr>owner_id = ''u-1'', row_name = ''Cafe Uno'', dti_cert_no = ''DTI-001'', status = ''unregistered''\<rparr>,
        \<lparr>owner_id = ''u-1'', row_name = ''Cafe Dos'', dti_cert_no = ''DTI-002'', status = ''unregistered''\<rparr>,
        \<lparr>owner_id = ''u-1'', row_name = ''Cafe Tres'', dti_cert_no = ''DTI-003'', status = ''unregistered''\<rparr>]"
    by (simp add: sample_form_def)
  from insert_requests_follow_the_entries[OF h, of idle_ui]
  have "\<exists>m\<le>length (establishments sample_form).
      insert_calls (calls_made (onSubmit (remote_insert_fails_at 1) sample_form idle_ui)) =
        map (\<lambda>e. \<lparr>owner_id = ''u-1'', row_name = name e, dti_cert_no = dtiCertNo e,
                   status = ''unregistered''\<rparr>)
          (take m (establishments sample_form))"
    by auto
  with h full show ?thesis by blast
qed

text \<open>
  C6 as stated fails: with three entries and a first insertion that is answered with an
  error, account creation succeeds and one request is issued, not three.
\<close>

theorem first_insert_failure_leaves_entries_without_request:
  "signUp (remote_insert_fails_at 0) (signUp_args sample_form) = SignUpResolved (Some (User ''u-1'')) None
   \<and> length (establishments sample_form) = 3
   \<and> insert_calls (calls_made (onSubmit (remote_insert_fails_at 0) sample_form idle_ui)) =
       [\<lparr>owner_id = ''u-1'', row_name = ''Cafe Uno'', dti_cert_no = ''DTI-001'', status = ''unregistered''\<rparr>]"
  by (simp add: onSubmit_def try_block_def calls_made_def remote_insert_fails_at_def
      sample_form_def insert_args_def Let_def)

section \<open>Properties of the establishments list\<close>

lemma on_click_keeps_first:
  assumes "entries \<noteq> []" and "on_click c entries = Some entries'"
  shows "entries' \<noteq> [] \<and> hd entries' = hd entries"
proof (cases c)
  case Plus_button
  with assms show ?thesis by (auto simp: append_entry_def)
next
  case (Minus_button index)
  with assms have idx: "0 < index" "index < length entries"
    and res: "entries' = take index entries @ drop (Suc index) entries"
    by (auto simp: remove_entry_def split: if_splits)
  from idx have "take index entries \<noteq> []" by auto
  moreover from idx have "hd (take index entries) = hd entries" by simp
  ultimately show ?thesis using res by simp
qed

lemma on_clicks_keep_first:
  "entries \<noteq> [] \<Longrightarrow> on_clicks cs entries = Some entries' \<Longrightarrow>
   entries' \<noteq> [] \<and> hd entries' = hd entries"
proof (induction cs arbitrary: entries)
  case Nil
  then show ?case by simp
next
  case (Cons c cs)
  from Cons.prems(2) obtain mid where step: "on_click c entries = Some mid"
    and rest: "on_clicks cs mid = Some entries'"
    by (auto split: option.splits)
  from on_click_keeps_first[OF Cons.prems(1) step] have "mid \<noteq> []" and "hd mid = hd entries"
    by simp_all
  with Cons.IH[OF _ rest] show ?case by simp
qed

text \<open>
  C9. The list starts as one blank entry. The plus button appends a blank entry at the
  end; a minus button exists only for an index above 0 of the current list. Hence after
  any sequence of clicks the list has at least one entry, and its first entry is the one
  it started with. Appending to a one-entry list and then removing index 1 gives back
  that one entry.
\<close>

theorem establishments_list_keeps_its_first_entry:
  "defaultValues = [\<lparr>name = [], dtiCertNo = []\<rparr>]
   \<and> on_click Plus_button entries = Some (entries @ [\<lparr>name = [], dtiCertNo = []\<rparr>])
   \<and> \<not> offered entries (Minus_button 0)
   \<and> on_click (Minus_button 0) entries = None
   \<and> (on_clicks cs defaultValues = Some entries' \<longrightarrow> 1 \<le> length entries')
   \<and> (entries \<noteq> [] \<and> on_clicks cs entries = Some entries' \<longrightarrow>
        1 \<le> length entries' \<and> hd entries' = hd entries)
   \<and> on_clicks [Plus_button, Minus_button 1] [e] = Some [e]"
proof -
  have general: "entries \<noteq> [] \<and> on_clicks cs entries = Some entries' \<longrightarrow>
        1 \<le> length entries' \<and> hd entries' = hd entries" for entries
  proof
    assume a: "entries \<noteq> [] \<and> on_clicks cs entries = Some entries'"
    then have "entries' \<noteq> [] \<and> hd entries' = hd entries"
      using on_clicks_keep_first[of entries cs entries'] by simp
    then show "1 \<le> length entries' \<and> hd entries' = hd entries"
      by (cases entries') simp_all
  qed
  have "on_clicks cs defaultValues = Some entries' \<longrightarrow> 1 \<le> length entries'"
    using general[of defaultValues] by (simp add: defaultValues_def)
  moreover have "on_clicks [Plus_button, Minus_button 1] [e] = Some [e]"
    by (simp add: append_entry_def remove_entry_def)
  ultimately show ?thesis
    using general[of entries]
    by (simp add: defaultValues_def blank_entry_def append_entry_def)
qed

theorem establishments_list_keeps_its_first_entry_witness:
  "on_clicks [Plus_button, Plus_button, Minus_button 1] defaultValues =
     Some [\<lparr>name = [], dtiCertNo = []\<rparr>, \<lparr>name = [], dtiCertNo = []\<rparr>]
   \<and> (1::nat) \<le> length [\<lparr>name = [], dtiCertNo = []\<rparr>, \<lparr>name = [], dtiCertNo = []\<rparr>]
   \<and> on_clicks [Plus_button, Minus_button 1] [\<lparr>name = ''Cafe Uno'', dtiCertNo = ''DTI-001''\<rparr>] =
       Some [\<lparr>name = ''Cafe Uno'', dtiCertNo = ''DTI-001''\<rparr>]"
proof -
  have run: "on_clicks [Plus_button, Plus_button, Minus_button 1] defaultValues =
     Some [\<lparr>name = [], dtiCertNo = []\<rparr>, \<lparr>name = [], dtiCertNo = []\<rparr>]"
    by (simp add: defaultValues_def blank_entry_def append_entry_def remove_entry_def)
  note inst = establishments_list_keeps_its_first_entry
      [of defaultValues "[Plus_button, Plus_button, Minus_button 1]"
          "[\<lparr>name = [], dtiCertNo = []\<rparr>, \<lparr>name = [], dtiCertNo = []\<rparr>]"
          "\<lparr>name = ''Cafe Uno'', dtiCertNo = ''DTI-001''\<rparr>"]
  from inst run
  have len: "(1::nat) \<le> length [\<lparr>name = [], dtiCertNo = []\<rparr>, \<lparr>name = [], dtiCertNo = []\<rparr>]"
    by blast
  from inst
  have undo: "on_clicks [Plus_button, Minus_button 1] [\<lparr>name = ''Cafe Uno'', dtiCertNo = ''DTI-001''\<rparr>] =
       Some [\<lparr>name = ''Cafe Uno'', dtiCertNo = ''DTI-001''\<rparr>]"
    by blast
  from run len undo show ?thesis by blast
qed

section \<open>Properties of the e-mail validation\<close>

lemma char_le_nat: "(a \<le> b) = ((of_char a :: nat) \<le> of_char b)"
  by (simp add: less_eq_char_def)

lemma char_eq_nat: "(a = b) = ((of_char a :: nat) = of_char b)"
  by simp

lemma of_char_upper:
  "(of_char (to_upper c) :: nat) =
     (if 97 \<le> (of_char c :: nat) \<and> (of_char c :: nat) \<le> 122 then of_char c - 32 else of_char c)"
proof -
  have "(of_char c :: nat) < 256" by simp
  then show ?thesis
    by (auto simp: to_upper_def char_le_nat)
qed

lemma of_char_lower:
  "(of_char (to_lower c) :: nat) =
     (if 65 \<le> (of_char c :: nat) \<and> (of_char c :: nat) \<le> 90 then of_char c + 32 else of_char c)"
proof -
  have "(of_char c :: nat) < 256" by simp
  then show ?thesis
    by (auto simp: to_lower_def char_le_nat)
qed

lemma in_item_letters: "in_item True (Range CHR ''A'' CHR ''Z'') c = is_letter c"
  by (simp add: is_letter_def char_le_nat of_char_upper of_char_lower) arith

lemma in_item_digits: "in_item True (Range CHR ''0'' CHR ''9'') c = is_digit c"
  by (simp add: is_digit_def char_le_nat of_char_upper of_char_lower) arith

lemma same_char_at: "same_char True CHR ''@'' c = (c = CHR ''@'')"
  unfolding same_char_def
  by (simp add: char_eq_nat[of "to_upper _"] char_eq_nat[of c] of_char_upper del: of_char_eq_iff) arith

lemma same_char_dot: "same_char True CHR ''.'' c = (c = CHR ''.'')"
  unfolding same_char_def
  by (simp add: char_eq_nat[of "to_upper _"] char_eq_nat[of c] of_char_upper del: of_char_eq_iff) arith

lemma same_char_underscore: "same_char True CHR ''_'' c = (c = CHR ''_'')"
  unfolding same_char_def
  by (simp add: char_eq_nat[of "to_upper _"] char_eq_nat[of c] of_char_upper del: of_char_eq_iff) arith

lemma same_char_percent: "same_char True CHR ''%'' c = (c = CHR ''%'')"
  unfolding same_char_def
  by (simp add: char_eq_nat[of "to_upper _"] char_eq_nat[of c] of_char_upper del: of_char_eq_iff) arith

lemma same_char_plus: "same_char True CHR ''+'' c = (c = CHR ''+'')"
  unfolding same_char_def
  by (simp add: char_eq_nat[of "to_upper _"] char_eq_nat[of c] of_char_upper del: of_char_eq_iff) arith

lemma same_char_minus: "same_char True CHR ''-'' c = (c = CHR ''-'')"
  unfolding same_char_def
  by (simp add: char_eq_nat[of "to_upper _"] char_eq_nat[of c] of_char_upper del: of_char_eq_iff) arith

lemmas same_char_simps =
  same_char_at same_char_dot same_char_underscore same_char_percent same_char_plus same_char_minus

lemma local_class:
  "in_class True [Range CHR ''A'' CHR ''Z'', Range CHR ''0'' CHR ''9'', Single CHR ''.'',
       Single CHR ''_'', Single CHR ''%'', Single CHR ''+'', Single CHR ''-''] c = local_part_char c"
  unfolding in_class_def local_part_char_def
  by (simp only: list_ex_Nil_iff list_ex_Cons_iff in_item_letters in_item_digits in_item.simps(1) same_char_simps) auto

lemma domain_class:
  "in_class True [Range CHR ''A'' CHR ''Z'', Range CHR ''0'' CHR ''9'', Single CHR ''.'',
       Single CHR ''-''] c = domain_char c"
  unfolding in_class_def domain_char_def
  by (simp only: list_ex_Nil_iff list_ex_Cons_iff in_item_letters in_item_digits in_item.simps(1) same_char_simps) auto

lemma letter_class: "in_class True [Range CHR ''A'' CHR ''Z''] c = is_letter c"
  unfolding in_class_def
  by (simp only: list_ex_Nil_iff list_ex_Cons_iff in_item_letters) simp

subsection \<open>The matcher decides the language\<close>

lemma lang_seq_iff: "w \<in> lang_seq A B \<longleftrightarrow> (\<exists>u v. w = u @ v \<and> u \<in> A \<and> v \<in> B)"
  by (auto simp: lang_seq_def)

lemma nullable_iff: "nullable r \<longleftrightarrow> [] \<in> lang i r"
  by (induction r) (auto simp: lang_seq_iff intro: lang_star.star_empty)

lemma quotient_seq:
  "{w. c # w \<in> lang_seq A B} =
     lang_seq {w. c # w \<in> A} B \<union> (if [] \<in> A then {w. c # w \<in> B} else {})"
proof (intro set_eqI iffI)
  fix w assume "w \<in> {w. c # w \<in> lang_seq A B}"
  then obtain u v where uv: "c # w = u @ v" "u \<in> A" "v \<in> B"
    by (auto simp: lang_seq_iff)
  show "w \<in> lang_seq {w. c # w \<in> A} B \<union> (if [] \<in> A then {w. c # w \<in> B} else {})"
  proof (cases u)
    case Nil
    with uv show ?thesis by auto
  next
    case (Cons a u')
    with uv have "a = c" "w = u' @ v" "c # u' \<in> A" by auto
    with uv(3) show ?thesis by (auto simp: lang_seq_iff)
  qed
next
  fix w assume w: "w \<in> lang_seq {w. c # w \<in> A} B \<union> (if [] \<in> A then {w. c # w \<in> B} else {})"
  show "w \<in> {w. c # w \<in> lang_seq A B}"
  proof (cases "w \<in> lang_seq {w. c # w \<in> A} B")
    case True
    then obtain u v where "w = u @ v" "c # u \<in> A" "v \<in> B" by (auto simp: lang_seq_iff)
    then have "c # w = (c # u) @ v \<and> c # u \<in> A \<and> v \<in> B" by simp
    then show ?thesis unfolding mem_Collect_eq lang_seq_iff by blast
  next
    case False
    with w have "[] \<in> A" "c # w \<in> B" by (auto split: if_splits)
    then have "c # w = [] @ (c # w) \<and> [] \<in> A \<and> c # w \<in> B" by simp
    then show ?thesis unfolding mem_Collect_eq lang_seq_iff by blast
  qed
qed

lemma star_unfold_step:
  "x \<in> lang_star A \<Longrightarrow> x = c # w \<Longrightarrow> \<exists>u v. w = u @ v \<and> c # u \<in> A \<and> v \<in> lang_star A"
proof (induction arbitrary: w rule: lang_star.induct)
  case star_empty
  then show ?case by simp
next
  case (star_more u v)
  show ?case
  proof (cases u)
    case Nil
    with star_more show ?thesis by simp
  next
    case (Cons a u')
    with star_more.prems have "a = c" "w = u' @ v" by simp_all
    with Cons star_more.hyps show ?thesis by blast
  qed
qed

lemma quotient_star:
  "{w. c # w \<in> lang_star A} = lang_seq {w. c # w \<in> A} (lang_star A)"
proof (intro set_eqI iffI)
  fix w assume "w \<in> {w. c # w \<in> lang_star A}"
  then have "c # w \<in> lang_star A" by simp
  from star_unfold_step[OF this refl] show "w \<in> lang_seq {w. c # w \<in> A} (lang_star A)"
    by (auto simp: lang_seq_iff)
next
  fix w assume "w \<in> lang_seq {w. c # w \<in> A} (lang_star A)"
  then obtain u v where "w = u @ v" "c # u \<in> A" "v \<in> lang_star A"
    by (auto simp: lang_seq_iff)
  then have "(c # u) @ v \<in> lang_star A" and "c # w = (c # u) @ v"
    using lang_star.star_more[of "c # u" A v] by simp_all
  then show "w \<in> {w. c # w \<in> lang_star A}" by simp
qed

lemma lang_deriv: "lang i (deriv i c r) = {w. c # w \<in> lang i r}"
proof (induction r)
  case (Seq r s)
  then show ?case by (simp add: quotient_seq nullable_iff[of r i])
next
  case (Star r)
  then show ?case by (simp add: quotient_star)
qed auto

lemma regex_test_iff: "regex_test i r s \<longleftrightarrow> s \<in> lang i r"
proof -
  have "nullable (foldl (\<lambda>r c. deriv i c r) r s) \<longleftrightarrow> s \<in> lang i r"
  proof (induction s arbitrary: r)
    case Nil
    show ?case by (simp add: nullable_iff[of r i])
  next
    case (Cons c s)
    show ?case by (simp add: Cons.IH lang_deriv)
  qed
  then show ?thesis by (simp add: regex_test_def)
qed

lemma star_of_chars: "lang_star {[c] | c. P c} = {w. list_all P w}"
proof (intro set_eqI iffI)
  fix w assume "w \<in> lang_star {[c] | c. P c}"
  then have "list_all P w"
    by (induction rule: lang_star.induct) auto
  then show "w \<in> {w. list_all P w}" by simp
next
  fix w assume "w \<in> {w. list_all P w}"
  then have "list_all P w" by simp
  then show "w \<in> lang_star {[c] | c. P c}"
  proof (induction w)
    case Nil
    show ?case by (rule lang_star.star_empty)
  next
    case (Cons c w)
    then have "[c] \<in> {[c] | c. P c}" and "w \<in> lang_star {[c] | c. P c}" by simp_all
    from lang_star.star_more[OF this] show ?case by simp
  qed
qed

lemma lang_Plus_Class:
  "lang i (Plus (Class items)) = {w. w \<noteq> [] \<and> list_all (in_class i items) w}"
proof -
  have "lang_seq {[c] | c. P c} {w. list_all P w} = {w. w \<noteq> [] \<and> list_all P w}" for P :: "char \<Rightarrow> bool"
  proof (intro set_eqI iffI)
    fix w assume "w \<in> lang_seq {[c] | c. P c} {w. list_all P w}"
    then show "w \<in> {w. w \<noteq> [] \<and> list_all P w}" by (auto simp: lang_seq_iff)
  next
    fix w assume "w \<in> {w. w \<noteq> [] \<and> list_all P w}"
    then obtain c w' where "w = [c] @ w'" "P c" "list_all P w'" by (cases w) auto
    then show "w \<in> lang_seq {[c] | c. P c} {w. list_all P w}"
      unfolding lang_seq_iff by blast
  qed
  then show ?thesis by (simp add: Plus_def star_of_chars)
qed

lemma lang_at_least_Class:
  "lang i (at_least n (Class items)) = {w. n \<le> length w \<and> list_all (in_class i items) w}"
proof (induction n)
  case 0
  show ?case by (simp add: star_of_chars)
next
  case (Suc n)
  show ?case
  proof (intro set_eqI iffI)
    fix w assume "w \<in> lang i (at_least (Suc n) (Class items))"
    then show "w \<in> {w. Suc n \<le> length w \<and> list_all (in_class i items) w}"
      by (auto simp: Suc.IH lang_seq_iff)
  next
    fix w assume "w \<in> {w. Suc n \<le> length w \<and> list_all (in_class i items) w}"
    then obtain c w' where "w = [c] @ w'" "in_class i items c"
        "n \<le> length w' \<and> list_all (in_class i items) w'"
      by (cases w) auto
    then show "w \<in> lang i (at_least (Suc n) (Class items))"
      unfolding at_least.simps lang.simps Suc.IH lang_seq_iff mem_Collect_eq by blast
  qed
qed

lemma lang_Lit_at: "lang True (Lit CHR ''@'') = {''@''}"
  by (auto simp: same_char_at)

lemma lang_Lit_dot: "lang True (Lit CHR ''.'') = {''.''}"
  by (auto simp: same_char_dot)

lemma lang_email_pattern: "s \<in> lang True email_pattern \<longleftrightarrow> spec_email_format s"
proof -
  have locals: "in_class True [Range CHR ''A'' CHR ''Z'', Range CHR ''0'' CHR ''9'', Single CHR ''.'',
       Single CHR ''_'', Single CHR ''%'', Single CHR ''+'', Single CHR ''-''] = local_part_char"
    by (rule ext) (rule local_class)
  have domains: "in_class True [Range CHR ''A'' CHR ''Z'', Range CHR ''0'' CHR ''9'', Single CHR ''.'',
       Single CHR ''-''] = domain_char"
    by (rule ext) (rule domain_class)
  have letters: "in_class True [Range CHR ''A'' CHR ''Z''] = is_letter"
    by (rule ext) (rule letter_class)
  have "lang True email_pattern =
      lang_seq {w. w \<noteq> [] \<and> list_all local_part_char w}
       (lang_seq {''@''}
         (lang_seq {w. w \<noteq> [] \<and> list_all domain_char w}
           (lang_seq {''.''} {w. Suc (Suc 0) \<le> length w \<and> list_all is_letter w})))"
    unfolding email_pattern_def lang.simps(6) lang_Plus_Class lang_at_least_Class
      lang_Lit_at lang_Lit_dot locals domains letters ..
  then show ?thesis
    unfolding spec_email_format_def
    by (simp add: lang_seq_iff numeral_2_eq_2) blast
qed

lemma validate_email_by_format:
  "validate_email s =
     (if s = [] then Some (RequiredFieldMissing, ''Email is required'')
      else if spec_email_format s then None
      else Some (InvalidFormat, ''Invalid email address''))"
  by (simp add: validate_email_def regex_test_iff lang_email_pattern)

lemma bad_email_format: "\<not> spec_email_format ''bad-email''"
proof
  assume "spec_email_format ''bad-email''"
  then obtain l dm t where "''bad-email'' = l @ ''@'' @ dm @ ''.'' @ t"
    unfolding spec_email_format_def by blast
  then have "CHR ''@'' \<in> set ''bad-email''"
    by (metis append_Cons in_set_conv_decomp)
  then show False by simp
qed

lemma good_email_format: "spec_email_format ''a@b.co''"
proof -
  have "''a@b.co'' = ''a'' @ ''@'' @ ''b'' @ ''.'' @ ''co''" by simp
  moreover have "list_all local_part_char ''a''"
    by (simp add: local_part_char_def is_letter_def char_le_nat)
  moreover have "list_all domain_char ''b''"
    by (simp add: domain_char_def is_letter_def char_le_nat)
  moreover have "list_all is_letter ''co''"
    by (simp add: is_letter_def char_le_nat)
  moreover have "''a'' \<noteq> []" "''b'' \<noteq> []" "2 \<le> length ''co''" by simp_all
  ultimately show ?thesis unfolding spec_email_format_def by blast
qed

text \<open>
  C8. The empty e-mail fails as \<open>RequiredFieldMissing\<close>; a non-empty one fails as
  \<open>InvalidFormat\<close> exactly when it is not of the form \<open>local-part@domain.tld\<close>, which
  is what the pattern of the source accepts. \<open>bad-email\<close> is rejected as
  \<open>InvalidFormat\<close> and \<open>a@b.co\<close> passes.
\<close>

theorem email_validation_follows_the_format:
  "validate_email s =
     (if s = [] then Some (RequiredFieldMissing, ''Email is required'')
      else if spec_email_format s then None
      else Some (InvalidFormat, ''Invalid email address''))
   \<and> regex_test True email_pattern s = spec_email_format s
   \<and> validate_email ''bad-email'' = Some (InvalidFormat, ''Invalid email address'')
   \<and> validate_email ''a@b.co'' = None"
  using bad_email_format good_email_format
  by (simp add: validate_email_by_format regex_test_iff lang_email_pattern)

text \<open>
  The matcher run on an address with upper case, a plus sign and a subdomain: it passes,
  and so the address has the format of the specification.
\<close>

theorem email_validation_follows_the_format_witness:
  "validate_email [] = Some (RequiredFieldMissing, ''Email is required'')
   \<and> validate_email ''Ana.Cruz+x@Mail.Example.PH'' = None
   \<and> spec_email_format ''Ana.Cruz+x@Mail.Example.PH''"
proof -
  have run: "validate_email ''Ana.Cruz+x@Mail.Example.PH'' = None"
    by code_simp
  have empty: "validate_email [] = Some (RequiredFieldMissing, ''Email is required'')"
    by (simp add: validate_email_def)
  from run email_validation_follows_the_format[of "''Ana.Cruz+x@Mail.Example.PH''"]
  have "spec_email_format ''Ana.Cruz+x@Mail.Example.PH''"
    by (simp split: if_splits)
  with run empty show ?thesis by simp
qed

section \<open>Properties of the input control\<close>

text \<open>
  C10. Toggling twice restores the state and with it the rendered type; when the type
  passed in is \<open>text\<close>, or none is passed, one toggle leaves the rendered type as it
  is; and the value of the rendered input is the one passed in, before and after a toggle.
\<close>

theorem toggle_twice_restores_input_type:
  "togglePassword (togglePassword st) = st
   \<and> inputType props (togglePassword (togglePassword st)) = inputType props st
   \<and> (type props = Some ''text'' \<longrightarrow> inputType props (togglePassword st) = inputType props st)
   \<and> (type props = None \<longrightarrow> inputType props (togglePassword st) = inputType props st)
   \<and> element_value (render props (togglePassword st)) = element_value (render props st)
   \<and> element_value (render props st) = value props"
  by (simp add: togglePassword_def inputType_def render_def)

theorem toggle_twice_restores_input_type_witness:
  "type name_field = Some ''text''
   \<and> inputType name_field (togglePassword initial_state) = ''text''
   \<and> inputType name_field initial_state = ''text''
   \<and> inputType password_field initial_state = ''password''
   \<and> inputType password_field (togglePassword initial_state) = ''text''
   \<and> inputType password_field (togglePassword (togglePassword initial_state)) = ''password''
   \<and> element_value (render password_field (togglePassword initial_state)) = ''longenough1''"
proof -
  have h: "type name_field = Some ''text''" by (simp add: name_field_def)
  have a: "inputType name_field initial_state = ''text''"
    by (simp add: inputType_def name_field_def initial_state_def)
  have b: "inputType password_field initial_state = ''password''"
    by (simp add: inputType_def password_field_def initial_state_def)
  have c: "inputType password_field (togglePassword initial_state) = ''text''"
    by (simp add: inputType_def togglePassword_def initial_state_def)
  have d: "value password_field = ''longenough1''" by (simp add: password_field_def)
  show ?thesis
    using h a b c d toggle_twice_restores_input_type[of initial_state name_field]
      toggle_twice_restores_input_type[of initial_state password_field]
    by simp
qed

end
